theory Spec2Isabelle
  imports Main "HOL-Library.Word" "HOL-Library.Signed_Division"
begin

unbundle bit_operations_syntax

section \<open>The ICMP echo probe of 02-icmp.cpp\<close>

text \<open>
  The program builds one 64-byte ICMP Echo Request in \<open>send_buffer\<close>, and in a loop
  stamps the sequence number and the checksum into it, sends it over a raw socket, and
  reads datagrams until one is a validated Echo Reply, a read fails, or the wait budget
  is used up.

  Platform facts the model fixes (Linux on a little-endian machine, as the headers
  \<open>netinet/ip_icmp.h\<close> and \<open>netinet/ip.h\<close> lay the structs out):
  \<^item> \<open>unsigned char\<close> is 8 bits, \<open>unsigned short\<close> 16 bits, \<open>unsigned int\<close> 32 bits;
  \<^item> a 16-bit field at byte offset \<open>i\<close> has its low byte at \<open>i\<close> and its high byte
    at \<open>i + 1\<close>;
  \<^item> \<open>struct icmphdr\<close>: type at 0, code at 1, checksum at 2, echo id at 4, echo
    sequence at 6, eight bytes in all;
  \<^item> \<open>struct iphdr\<close>: \<open>ihl\<close> is the low nibble of byte 0, \<open>ttl\<close> is byte 8, the
    source address is bytes 12 to 15.
  Memory is a list of bytes; a pointer into a buffer is the buffer with the bytes
  before the pointer dropped. The clock, the network and the results of the system
  calls are inputs of the model.
\<close>

type_synonym byte = "8 word"
type_synonym u16 = "16 word"
type_synonym u32 = "32 word"

definition PACKET_SIZE :: nat where
  "PACKET_SIZE = 56"

definition MAX_WAIT_TIME :: int where
  "MAX_WAIT_TIME = 1000"

definition BUFFER_SIZE :: nat where
  "BUFFER_SIZE = 1024"

definition GOOGLE_DNS :: string where
  "GOOGLE_DNS = ''8.8.8.8''"

definition ICMP_ECHO :: byte where
  "ICMP_ECHO = 8"

definition ICMP_ECHOREPLY :: byte where
  "ICMP_ECHOREPLY = 0"

definition sizeof_icmphdr :: nat where
  "sizeof_icmphdr = 8"

subsection \<open>Reading and writing 16-bit fields\<close>

definition load16 :: "byte list \<Rightarrow> nat \<Rightarrow> u16" where
  "load16 m i = ucast (m ! i) OR push_bit 8 (ucast (m ! (i + 1)))"

definition store16 :: "byte list \<Rightarrow> nat \<Rightarrow> u16 \<Rightarrow> byte list" where
  "store16 m i v = m[i := ucast v, i + 1 := ucast (drop_bit 8 v)]"

subsection \<open>calculate_checksum\<close>

text \<open>
  The \<open>for\<close> loop of \<open>calculate_checksum\<close>: while \<open>len > 1\<close>, add the 16-bit word under
  \<open>buf\<close> to the 32-bit \<open>sum\<close> (here \<open>acc\<close>), advance \<open>buf\<close> by one word and take 2 from
  \<open>len\<close>. It returns the pointer, the remaining length and the sum.
\<close>

function sum_words :: "byte list \<Rightarrow> int \<Rightarrow> u32 \<Rightarrow> byte list \<times> int \<times> u32" where
  "sum_words buf len acc =
     (if len > 1 then sum_words (drop 2 buf) (len - 2) (acc + ucast (load16 buf 0))
      else (buf, len, acc))"
  by pat_completeness auto
termination
  by (relation "measure (\<lambda>(buf, len, acc). nat len)") auto

declare sum_words.simps [simp del]

definition calculate_checksum :: "byte list \<Rightarrow> int \<Rightarrow> u16" where
  "calculate_checksum b len =
     (case sum_words b len 0 of (buf, len', sum0) \<Rightarrow>
        let sum1 = (if len' = 1 then sum0 + ucast (buf ! 0) else sum0);
            sum2 = drop_bit 16 sum1 + (sum1 AND 0xFFFF);
            sum3 = sum2 + drop_bit 16 sum2;
            result = ucast (NOT sum3)
        in result)"

text \<open>
  The checksum as the specification words it: the 16-bit words of the buffer, an odd
  trailing byte as a zero-padded word, a 32-bit accumulator, two folds, and the
  complement of the 16-bit sum.
\<close>

fun words16 :: "byte list \<Rightarrow> u16 list" where
  "words16 [] = []"
| "words16 [b0] = []"
| "words16 (b0 # b1 # bs) = load16 [b0, b1] 0 # words16 bs"

definition odd_trailing_byte :: "byte list \<Rightarrow> u16" where
  "odd_trailing_byte bs = (if odd (length bs) then ucast (last bs) else 0)"

definition rfc1071_checksum :: "byte list \<Rightarrow> u16" where
  "rfc1071_checksum bs =
     (let acc = sum_list (map ucast (words16 bs)) + ucast (odd_trailing_byte bs) :: u32;
          folded = take_bit 16 acc + drop_bit 16 acc;
          folded' = folded + drop_bit 16 folded;
          sum16 = ucast folded' :: u16
      in NOT sum16)"

subsection \<open>Header fields\<close>

text \<open>The fields of a \<open>struct icmphdr\<close> that starts at offset \<open>off\<close> of a buffer.\<close>

definition icmp_type :: "byte list \<Rightarrow> nat \<Rightarrow> byte" where
  "icmp_type m off = m ! off"

definition icmp_code :: "byte list \<Rightarrow> nat \<Rightarrow> byte" where
  "icmp_code m off = m ! (off + 1)"

definition icmp_checksum :: "byte list \<Rightarrow> nat \<Rightarrow> u16" where
  "icmp_checksum m off = load16 m (off + 2)"

definition icmp_id :: "byte list \<Rightarrow> nat \<Rightarrow> u16" where
  "icmp_id m off = load16 m (off + 4)"

definition icmp_sequence :: "byte list \<Rightarrow> nat \<Rightarrow> u16" where
  "icmp_sequence m off = load16 m (off + 6)"

text \<open>The fields of the \<open>struct iphdr\<close> at the start of a received datagram.\<close>

definition ip_ihl :: "byte list \<Rightarrow> nat" where
  "ip_ihl m = unat (m ! 0 AND 0x0F)"

definition ip_ttl :: "byte list \<Rightarrow> byte" where
  "ip_ttl m = m ! 8"

definition ip_saddr :: "byte list \<Rightarrow> byte list" where
  "ip_saddr m = take 4 (drop 12 m)"

text \<open>\<open>getpid() & 0xFFFF\<close>, an \<open>int\<close>.\<close>

definition masked_pid :: "int \<Rightarrow> int" where
  "masked_pid pid = pid AND 0xFFFF"

subsection \<open>Building the packet\<close>

text \<open>
  Before the loop: type, code and identifier of the header, and the payload bytes
  \<open>send_buffer[i] = i % 256\<close> for \<open>i\<close> from \<open>sizeof(struct icmphdr)\<close> up to
  \<open>PACKET_SIZE + sizeof(struct icmphdr)\<close>. The checksum and sequence fields are not
  written here: they keep what the uninitialised array held.
\<close>

definition init_packet :: "int \<Rightarrow> byte list \<Rightarrow> byte list" where
  "init_packet pid send_buffer =
     (let b1 = send_buffer[0 := ICMP_ECHO];
          b2 = b1[1 := 0];
          b3 = store16 b2 4 (word_of_int (masked_pid pid))
      in fold (\<lambda>i b. b[i := of_nat (i mod 256)])
           [sizeof_icmphdr ..< PACKET_SIZE + sizeof_icmphdr] b3)"

text \<open>
  At the top of each iteration: the sequence field, a zeroed checksum field, then the
  checksum of the whole packet.
\<close>

definition prepare_packet :: "int \<Rightarrow> byte list \<Rightarrow> byte list" where
  "prepare_packet sequence send_buffer =
     (let b1 = store16 send_buffer 6 (word_of_int sequence);
          b2 = store16 b1 2 0
      in store16 b2 2 (calculate_checksum b2 (int (PACKET_SIZE + sizeof_icmphdr))))"

subsection \<open>Receiving\<close>

text \<open>
  \<open>recvfrom\<close> on the raw socket: \<open>None\<close> is a failed or timed-out read (the call
  returns -1 and leaves the buffer alone); \<open>Some d\<close> is a datagram \<open>d\<close>, IP header
  first, of which at most \<open>sizeof(recv_buffer)\<close> bytes are copied over the start of the
  buffer. The rest of the buffer keeps its old bytes.
\<close>

definition recvfrom :: "byte list \<Rightarrow> byte list option \<Rightarrow> byte list \<times> int" where
  "recvfrom recv_buffer r =
     (case r of
        None \<Rightarrow> (recv_buffer, -1)
      | Some d \<Rightarrow>
          let n = min (length d) BUFFER_SIZE
          in (take n d @ drop n recv_buffer, int n))"

text \<open>The test that makes a received datagram a candidate match.\<close>

definition is_candidate :: "int \<Rightarrow> int \<Rightarrow> byte list \<Rightarrow> bool" where
  "is_candidate pid sequence recv_buffer =
     (let off = ip_ihl recv_buffer * 4
      in icmp_type recv_buffer off = ICMP_ECHOREPLY \<and>
         uint (icmp_id recv_buffer off) = masked_pid pid \<and>
         uint (icmp_sequence recv_buffer off) = sequence)"

text \<open>
  The validation of a candidate: save the checksum field, zero it, recompute the
  checksum over the ICMP part of the datagram, put the saved value back, compare.
  It returns the verdict and the buffer.
\<close>

definition validate_reply :: "byte list \<Rightarrow> nat \<Rightarrow> int \<Rightarrow> bool \<times> byte list" where
  "validate_reply recv_buffer off recv_len =
     (let original_checksum = icmp_checksum recv_buffer off;
          b0 = store16 recv_buffer (off + 2) 0;
          calculated_checksum = calculate_checksum (drop off b0) (recv_len - int off);
          b1 = store16 b0 (off + 2) original_checksum
      in (original_checksum = calculated_checksum, b1))"

subsection \<open>Output\<close>

text \<open>
  A line of output is the stream it goes to and the items written, without the line
  terminator. \<open>Millis2 ns\<close> stands for the \<open>double\<close> value \<open>ns / 1000000.0\<close> written
  with \<open>std::fixed\<close> and \<open>std::setprecision(2)\<close>; the digits it prints are not
  modelled.
\<close>

datatype stream = Stdout | Stderr

datatype item = Text string | Number int | Millis2 int

type_synonym line = "stream \<times> item list"

definition reply_line :: "u16 \<Rightarrow> byte \<Rightarrow> int \<Rightarrow> line" where
  "reply_line seq ttl duration =
     (Stdout,
      [Text ''64 bytes from '', Text GOOGLE_DNS, Text '': icmp_seq='', Number (uint seq),
       Text '' ttl='', Number (uint ttl), Text '' time='', Millis2 duration, Text '' ms''])"

definition timeout_line :: line where
  "timeout_line = (Stderr, [Text ''Request timed out''])"

definition send_failed_line :: line where
  "send_failed_line = (Stderr, [Text ''Failed to send ICMP packet''])"

subsection \<open>The wait loop\<close>

text \<open>
  One evaluation of the inner \<open>while\<close> condition and, if it holds, one run of its
  body, as the environment shapes it: the clock reading taken by the condition, what
  \<open>recvfrom\<close> does, and the clock reading taken after \<open>recvfrom\<close> returns. Clock
  readings are in nanoseconds.
\<close>

record read_event =
  now_ns :: int
  recv :: "byte list option"
  end_ns :: int

text \<open>\<open>duration_cast<milliseconds>(now - start).count()\<close>: division truncates.\<close>

definition elapsed_ms :: "int \<Rightarrow> int \<Rightarrow> int" where
  "elapsed_ms start now = (now - start) sdiv 1000000"

datatype wait_outcome = Matched line | TimedOut

text \<open>
  The inner loop. \<open>Matched l\<close> is \<open>received = true\<close> after printing \<open>l\<close>; \<open>TimedOut\<close>
  is leaving the loop with \<open>received = false\<close>. The result is \<open>None\<close> when the list of
  events ends while the loop is still running.
\<close>

fun wait_loop ::
  "int \<Rightarrow> int \<Rightarrow> int \<Rightarrow> byte list \<Rightarrow> read_event list \<Rightarrow> (wait_outcome \<times> byte list) option"
where
  "wait_loop pid sequence start recv_buffer [] = None"
| "wait_loop pid sequence start recv_buffer (ev # evs) =
     (if elapsed_ms start (now_ns ev) < MAX_WAIT_TIME then
        (case recvfrom recv_buffer (recv ev) of (buf, recv_len) \<Rightarrow>
           let duration = end_ns ev - start
           in if recv_len = -1 then Some (TimedOut, buf)
              else
                let off = ip_ihl buf * 4
                in if is_candidate pid sequence buf then
                     (case validate_reply buf off recv_len of (valid, buf') \<Rightarrow>
                        if valid
                        then Some (Matched (reply_line (icmp_sequence buf' off) (ip_ttl buf')
                                     duration), buf')
                        else wait_loop pid sequence start buf' evs)
                   else wait_loop pid sequence start buf evs)
      else Some (TimedOut, recv_buffer))"

subsection \<open>The probe loop\<close>

text \<open>
  What the environment does during one iteration of the outer loop: the clock reading
  \<open>start\<close>, the value \<open>sendto\<close> returns, and the events of the wait.
\<close>

record probe_env =
  start_ns :: int
  sendto_ret :: int
  reads :: "read_event list"

text \<open>
  The variables of \<open>main\<close> that the loop uses, the packets handed to a successful
  \<open>sendto\<close>, oldest first, and the lines written so far.
\<close>

record state =
  send_count :: int
  sequence :: int
  send_buffer :: "byte list"
  recv_buffer :: "byte list"
  transmitted :: "byte list list"
  printed :: "line list"

definition initial_state :: "int \<Rightarrow> byte list \<Rightarrow> byte list \<Rightarrow> state" where
  "initial_state pid sb rb =
     \<lparr>send_count = 10, sequence = 0, send_buffer = init_packet pid sb, recv_buffer = rb,
      transmitted = [], printed = []\<rparr>"

text \<open>
  The body of \<open>while (send_count > 0)\<close>. A failed \<open>sendto\<close> writes its message and
  goes on to the next iteration; otherwise the wait loop runs and a timeout line is
  written unless a reply was accepted. \<open>None\<close> when the wait ran out of events.
\<close>

definition probe_iteration :: "int \<Rightarrow> probe_env \<Rightarrow> state \<Rightarrow> state option" where
  "probe_iteration pid env st =
     (let st1 = st\<lparr>send_buffer := prepare_packet (sequence st) (send_buffer st)\<rparr>
      in if sendto_ret env \<le> 0
         then Some (st1\<lparr>printed := printed st1 @ [send_failed_line]\<rparr>)
         else
           let st2 = st1\<lparr>transmitted := transmitted st1 @ [send_buffer st1]\<rparr>
           in (case wait_loop pid (sequence st2) (start_ns env) (recv_buffer st2) (reads env) of
                 None \<Rightarrow> None
               | Some (Matched l, rb) \<Rightarrow>
                   Some (st2\<lparr>recv_buffer := rb, printed := printed st2 @ [l]\<rparr>)
               | Some (TimedOut, rb) \<Rightarrow>
                   Some (st2\<lparr>recv_buffer := rb, printed := printed st2 @ [timeout_line]\<rparr>)))"

text \<open>
  The outer loop, one \<open>probe_env\<close> per iteration. \<open>Some st\<close> is the state in which
  the loop condition fails and \<open>main\<close> goes on to close the socket; \<open>None\<close> means that
  the loop is still running when the environment's script ends.
\<close>

fun main_loop :: "int \<Rightarrow> probe_env list \<Rightarrow> state \<Rightarrow> state option" where
  "main_loop pid [] st = (if send_count st > 0 then None else Some st)"
| "main_loop pid (env # envs) st =
     (if send_count st > 0 then
        (case probe_iteration pid env st of
           None \<Rightarrow> None
         | Some st' \<Rightarrow> main_loop pid envs st')
      else Some st)"

text \<open>
  The state after the loop body has run once for each element of the script, in
  order: \<open>None\<close> if the loop condition failed before the script was used up, or a wait
  ran out of events.
\<close>

fun iterations :: "int \<Rightarrow> probe_env list \<Rightarrow> state \<Rightarrow> state option" where
  "iterations pid [] st = Some st"
| "iterations pid (env # envs) st =
     (if send_count st > 0 then
        (case probe_iteration pid env st of
           None \<Rightarrow> None
         | Some st' \<Rightarrow> iterations pid envs st')
      else None)"

text \<open>
  Two buffers of one length that agree at every index but those of the checksum
  field (2, 3) and of the sequence field (6, 7).
\<close>

definition same_outside_seq_checksum :: "byte list \<Rightarrow> byte list \<Rightarrow> bool" where
  "same_outside_seq_checksum p q \<longleftrightarrow>
     length p = length q \<and> (\<forall>i \<in> {0..<length p}. i \<in> {2, 3, 6, 7} \<or> p ! i = q ! i)"

subsection \<open>Sample data\<close>

text \<open>
  A 20-byte IP header (\<open>ihl\<close> 5, \<open>ttl\<close> 55, source address 1.2.3.4) and the eight
  bytes of an Echo Reply header for identifier 1234 and sequence 0, its checksum field
  zeroed.
\<close>

definition example_ip_header :: "byte list" where
  "example_ip_header = [0x45, 0, 0, 28, 0, 0, 0, 0, 55, 1, 0, 0, 1, 2, 3, 4, 10, 0, 0, 1]"

definition example_echo_header :: "byte list" where
  "example_echo_header = [0, 0, 0, 0, 0xD2, 0x04, 0, 0]"

text \<open>
  Two scripts for one iteration: \<open>sendto\<close> fails; and \<open>sendto\<close> succeeds and the
  first read then gives up (\<open>recvfrom\<close> returns -1) after its one-second deadline.
\<close>

definition send_fails :: probe_env where
  "send_fails = \<lparr>start_ns = 0, sendto_ret = -1, reads = []\<rparr>"

definition read_fails :: probe_env where
  "read_fails = \<lparr>start_ns = 0, sendto_ret = 64,
     reads = [\<lparr>now_ns = 20000, recv = None, end_ns = 1000020000\<rparr>]\<rparr>"

text \<open>
  Sample contents of the two uninitialised arrays of \<open>main\<close>.
\<close>

definition example_send_buffer :: "byte list" where
  "example_send_buffer = replicate 64 0xAA"

definition example_recv_buffer :: "byte list" where
  "example_recv_buffer = replicate 1024 0"

text \<open>
  Three 28-byte datagrams behind the sample IP header: an Echo Reply for identifier
  1234 and sequence 0 with the right checksum; the same with one bit of the checksum
  flipped; and a well-formed Echo Reply for another identifier, 999.
\<close>

definition example_reply :: "byte list" where
  "example_reply = example_ip_header @ [0, 0, 0x2D, 0xFB, 0xD2, 0x04, 0, 0]"

definition corrupted_reply :: "byte list" where
  "corrupted_reply = example_ip_header @ [0, 0, 0x2D, 0xFA, 0xD2, 0x04, 0, 0]"

definition foreign_reply :: "byte list" where
  "foreign_reply = example_ip_header @ [0, 0, 0x18, 0xFC, 0xE7, 0x03, 0, 0]"

text \<open>
  A script for one iteration in which the sample reply arrives 50 ms after the send.
\<close>

definition reply_arrives :: probe_env where
  "reply_arrives = \<lparr>start_ns = 0, sendto_ret = 64,
     reads = [\<lparr>now_ns = 20000, recv = Some example_reply, end_ns = 50000000\<rparr>]\<rparr>"

section \<open>Facts about the model\<close>

subsection \<open>Bytes and 16-bit fields\<close>

lemma ucast_not_16_32: "(ucast (NOT (x :: u32)) :: u16) = NOT (ucast x)"
  by (rule bit_word_eqI) (auto simp: bit_simps)

lemma ucast_byte_16_32: "(ucast (ucast (b :: byte) :: u16) :: u32) = ucast b"
  by (rule bit_word_eqI) (auto simp: bit_simps dest: bit_imp_le_length)

lemma load16_store16: "i + 1 < length m \<Longrightarrow> load16 (store16 m i v) i = v"
  unfolding load16_def store16_def
  by (simp, rule bit_word_eqI) (auto simp: bit_simps)

lemma length_store16: "length (store16 m i v) = length m"
  by (simp add: store16_def)

lemma nth_store16_other: "j \<noteq> i \<Longrightarrow> j \<noteq> i + 1 \<Longrightarrow> store16 m i v ! j = m ! j"
  by (simp add: store16_def)

lemma load16_store16_other:
  "j \<noteq> i \<Longrightarrow> j \<noteq> i + 1 \<Longrightarrow> j + 1 \<noteq> i \<Longrightarrow> load16 (store16 m i v) j = load16 m j"
  by (simp add: store16_def load16_def)

lemma store16_store16: "store16 (store16 m i v) i w = store16 m i w"
  by (simp add: store16_def list_update_swap)

lemma low_byte_of_pair:
  "(ucast (ucast (a :: byte) OR push_bit 8 (ucast (b :: byte)) :: u16) :: byte) = a"
  by (rule bit_word_eqI) (auto simp: bit_simps)

lemma high_byte_of_pair:
  "(ucast (drop_bit 8 (ucast (a :: byte) OR push_bit 8 (ucast (b :: byte)) :: u16)) :: byte) = b"
  by (rule bit_word_eqI) (auto simp: bit_simps dest: bit_imp_le_length)

lemma store16_load16: "store16 m i (load16 m i) = m"
  unfolding store16_def load16_def
  by (simp only: low_byte_of_pair high_byte_of_pair list_update_id)

lemma load16_append_right: "load16 (xs @ ys) (length xs + i) = load16 ys i"
  by (simp add: load16_def nth_append)

lemma load16_append_left: "i + 1 < length xs \<Longrightarrow> load16 (xs @ ys) i = load16 xs i"
  by (simp add: load16_def nth_append)

lemma store16_append_right: "store16 (xs @ ys) (length xs + i) v = xs @ store16 ys i v"
  by (simp add: store16_def list_update_append)

lemma store16_append_left: "i + 1 < length xs \<Longrightarrow> store16 (xs @ ys) i v = store16 xs i v @ ys"
  by (simp add: store16_def list_update_append)

lemma store16_zero_id: "load16 m i = 0 \<Longrightarrow> store16 m i 0 = m"
  using store16_load16 [of m i] by simp

subsection \<open>The checksum loop\<close>

text \<open>
  The loop over a buffer of exactly \<open>len\<close> bytes, followed in memory by anything:
  it stops at the odd trailing byte, if there is one, with the sum of the words.
\<close>

lemma sum_words_whole:
  "sum_words (bs @ rest) (int (length bs)) s =
     ((if odd (length bs) then [last bs] else []) @ rest,
      if odd (length bs) then 1 else 0,
      s + sum_list (map ucast (words16 bs)))"
proof (induction bs arbitrary: s rule: words16.induct)
  case 1
  show ?case by (subst sum_words.simps) simp
next
  case (2 b0)
  show ?case by (subst sum_words.simps) simp
next
  case (3 b0 b1 bs)
  show ?case
    using 3 [of "s + ucast (load16 [b0, b1] 0)"]
    by (subst sum_words.simps) (simp add: load16_def add.assoc)
qed

lemma calculate_checksum_append:
  "calculate_checksum (bs @ rest) (int (length bs)) = rfc1071_checksum bs"
  unfolding calculate_checksum_def rfc1071_checksum_def odd_trailing_byte_def
  by (simp add: sum_words_whole Let_def ucast_not_16_32 ucast_byte_16_32
        take_bit_eq_mask mask_eq_exp_minus_1 add.commute)

subsection \<open>The packet\<close>

lemma length_fold_update: "length (fold (\<lambda>i b. b[i := f i]) is b) = length b"
  by (induction "is" arbitrary: b) simp_all

lemma nth_fold_update:
  "fold (\<lambda>i b. b[i := f i]) [a..<c] b ! j = (if a \<le> j \<and> j < c \<and> j < length b then f j else b ! j)"
proof (induction c)
  case 0
  show ?case by simp
next
  case (Suc c)
  show ?case
  proof (cases "a \<le> c")
    case True
    then show ?thesis
      using Suc
      by (cases "j = c"; cases "j < length b")
        (auto simp: length_fold_update list_update_beyond)
  next
    case False
    then show ?thesis by auto
  qed
qed

lemma length_init_packet: "length (init_packet pid sb) = length sb"
  by (simp add: init_packet_def Let_def length_fold_update length_store16)

lemma init_packet_type:
  "0 < length sb \<Longrightarrow> icmp_type (init_packet pid sb) 0 = ICMP_ECHO"
  by (simp add: init_packet_def Let_def icmp_type_def nth_fold_update sizeof_icmphdr_def
        nth_store16_other)

lemma init_packet_code:
  "1 < length sb \<Longrightarrow> icmp_code (init_packet pid sb) 0 = 0"
  by (simp add: init_packet_def Let_def icmp_code_def nth_fold_update sizeof_icmphdr_def
        nth_store16_other)

lemma init_packet_id:
  "5 < length sb \<Longrightarrow> icmp_id (init_packet pid sb) 0 = word_of_int (masked_pid pid)"
proof -
  assume len: "5 < length sb"
  let ?b2 = "sb[0 := ICMP_ECHO, 1 := 0]"
  let ?b3 = "store16 ?b2 4 (word_of_int (masked_pid pid))"
  have "load16 (fold (\<lambda>i b. b[i := of_nat (i mod 256)]) [8..<64] ?b3) 4 = load16 ?b3 4"
    by (simp add: load16_def nth_fold_update)
  also have "\<dots> = word_of_int (masked_pid pid)"
    using len by (intro load16_store16) simp
  finally show ?thesis
    by (simp add: init_packet_def Let_def icmp_id_def sizeof_icmphdr_def PACKET_SIZE_def)
qed

lemma init_packet_payload:
  "sizeof_icmphdr \<le> i \<Longrightarrow> i < PACKET_SIZE + sizeof_icmphdr \<Longrightarrow> i < length sb \<Longrightarrow>
   init_packet pid sb ! i = of_nat (i mod 256)"
  by (simp add: init_packet_def Let_def nth_fold_update length_store16)

lemma length_prepare_packet: "length (prepare_packet s b) = length b"
  by (simp add: prepare_packet_def Let_def length_store16)

lemma prepare_packet_frame:
  "i \<notin> {2, 3, 6, 7} \<Longrightarrow> prepare_packet s b ! i = b ! i"
  by (simp add: prepare_packet_def Let_def nth_store16_other)

subsection \<open>The probe loop, step by step\<close>

lemma probe_iteration_effect:
  assumes "probe_iteration pid env st = Some st'"
  shows "send_count st' = send_count st" and "sequence st' = sequence st"
    and "send_buffer st' = prepare_packet (sequence st) (send_buffer st)"
    and "transmitted st' = transmitted st \<or> transmitted st' = transmitted st @ [send_buffer st']"
  using assms
  by (auto simp: probe_iteration_def Let_def
      split: if_splits option.splits prod.splits wait_outcome.splits)

lemma same_outside_refl: "same_outside_seq_checksum p p"
  by (simp add: same_outside_seq_checksum_def)

lemma same_outside_trans:
  "same_outside_seq_checksum p q \<Longrightarrow> same_outside_seq_checksum q r \<Longrightarrow>
   same_outside_seq_checksum p r"
  unfolding same_outside_seq_checksum_def by fastforce

lemma prepare_packet_same: "same_outside_seq_checksum (prepare_packet s b) b"
  unfolding same_outside_seq_checksum_def
  using prepare_packet_frame [of _ s b] by (auto simp: length_prepare_packet)

lemma prepare_packet_sequence:
  assumes "7 < length b"
  shows "icmp_sequence (prepare_packet s b) 0 = word_of_int s"
proof -
  let ?b1 = "store16 b 6 (word_of_int s)"
  let ?b2 = "store16 ?b1 2 0"
  have "load16 (store16 ?b2 2 (calculate_checksum ?b2 64)) 6 = load16 ?b2 6"
    by (rule load16_store16_other) simp_all
  also have "\<dots> = load16 ?b1 6"
    by (rule load16_store16_other) simp_all
  also have "\<dots> = word_of_int s"
    using assms by (intro load16_store16) simp
  finally show ?thesis
    by (simp add: prepare_packet_def Let_def icmp_sequence_def PACKET_SIZE_def sizeof_icmphdr_def)
qed

lemma fixed_fields_of_same:
  assumes same: "same_outside_seq_checksum p (init_packet pid sb)"
    and len: "length sb = PACKET_SIZE + sizeof_icmphdr"
  shows "icmp_type p 0 = ICMP_ECHO" and "icmp_code p 0 = 0"
    and "icmp_id p 0 = word_of_int (masked_pid pid)"
    and "\<forall>i \<in> {sizeof_icmphdr ..< PACKET_SIZE + sizeof_icmphdr}. p ! i = of_nat (i mod 256)"
proof -
  have lp: "length p = 64"
    using same len
    by (simp add: same_outside_seq_checksum_def length_init_packet PACKET_SIZE_def
          sizeof_icmphdr_def)
  have eq: "p ! i = init_packet pid sb ! i" if "i < 64" "i \<notin> {2, 3, 6, 7}" for i
    using same that lp unfolding same_outside_seq_checksum_def by auto
  have len': "length sb = 64"
    using len by (simp add: PACKET_SIZE_def sizeof_icmphdr_def)
  show "icmp_type p 0 = ICMP_ECHO"
    using eq [of 0] init_packet_type [of sb pid] len' by (simp add: icmp_type_def)
  show "icmp_code p 0 = 0"
    using eq [of 1] init_packet_code [of sb pid] len' by (simp add: icmp_code_def)
  show "icmp_id p 0 = word_of_int (masked_pid pid)"
    using eq [of 4] eq [of 5] init_packet_id [of sb pid] len'
    by (simp add: icmp_id_def load16_def)
  show "\<forall>i \<in> {sizeof_icmphdr ..< PACKET_SIZE + sizeof_icmphdr}. p ! i = of_nat (i mod 256)"
  proof
    fix i
    assume i: "i \<in> {sizeof_icmphdr ..< PACKET_SIZE + sizeof_icmphdr}"
    then have "i < 64" "i \<notin> {2, 3, 6, 7}"
      by (auto simp: PACKET_SIZE_def sizeof_icmphdr_def)
    then have "p ! i = init_packet pid sb ! i"
      by (rule eq)
    also have "\<dots> = of_nat (i mod 256)"
      using i len by (intro init_packet_payload) auto
    finally show "p ! i = of_nat (i mod 256)" .
  qed
qed

lemma iterations_invariant:
  assumes "iterations pid envs st = Some st'"
    and "same_outside_seq_checksum (send_buffer st) ref"
    and "\<forall>p \<in> set (transmitted st). same_outside_seq_checksum p ref"
  shows "same_outside_seq_checksum (send_buffer st') ref \<and>
         (\<forall>p \<in> set (transmitted st'). same_outside_seq_checksum p ref)"
  using assms
proof (induction envs arbitrary: st)
  case Nil
  then show ?case by simp
next
  case (Cons env envs)
  from Cons.prems(1) obtain st1 where
    step: "probe_iteration pid env st = Some st1" and rest: "iterations pid envs st1 = Some st'"
    by (auto split: if_splits option.splits)
  have buf: "same_outside_seq_checksum (send_buffer st1) ref"
    using probe_iteration_effect(3) [OF step] prepare_packet_same Cons.prems(2)
    by (auto intro: same_outside_trans)
  have sent: "\<forall>p \<in> set (transmitted st1). same_outside_seq_checksum p ref"
    using probe_iteration_effect(4) [OF step] buf Cons.prems(3) by auto
  show ?case
    using Cons.IH [OF rest buf sent] .
qed

lemma iterations_counters:
  "iterations pid envs st = Some st' \<Longrightarrow>
   send_count st' = send_count st \<and> sequence st' = sequence st"
proof (induction envs arbitrary: st)
  case Nil
  then show ?case by simp
next
  case (Cons env envs)
  from Cons.prems obtain st1 where
    step: "probe_iteration pid env st = Some st1" and rest: "iterations pid envs st1 = Some st'"
    by (auto split: if_splits option.splits)
  show ?case
    using Cons.IH [OF rest] probe_iteration_effect(1,2) [OF step] by simp
qed

lemma main_loop_stuck:
  "0 < send_count st \<Longrightarrow> main_loop pid envs st = None"
proof (induction envs arbitrary: st)
  case Nil
  then show ?case by simp
next
  case (Cons env envs)
  show ?case
  proof (cases "probe_iteration pid env st")
    case None
    then show ?thesis using Cons.prems by simp
  next
    case (Some st1)
    then have "0 < send_count st1"
      using probe_iteration_effect(1) [OF Some] Cons.prems by simp
    then show ?thesis
      using Some Cons.prems Cons.IH by simp
  qed
qed

lemma iterations_preserve:
  assumes "iterations pid envs st = Some st'" and "P st"
    and "\<And>env a b. P a \<Longrightarrow> probe_iteration pid env a = Some b \<Longrightarrow> P b"
  shows "P st'"
  using assms(1,2)
proof (induction envs arbitrary: st)
  case Nil
  then show ?case by simp
next
  case (Cons env envs)
  from Cons.prems(1) obtain st1 where
    step: "probe_iteration pid env st = Some st1" and rest: "iterations pid envs st1 = Some st'"
    by (auto split: if_splits option.splits)
  show ?case
    using Cons.IH [OF rest] assms(3) [OF Cons.prems(2) step] .
qed

lemma probe_iteration_read_fails:
  "probe_iteration pid read_fails st =
     Some (st\<lparr>send_buffer := prepare_packet (sequence st) (send_buffer st),
              transmitted := transmitted st @ [prepare_packet (sequence st) (send_buffer st)],
              recv_buffer := recv_buffer st,
              printed := printed st @ [timeout_line]\<rparr>)"
  by (simp add: probe_iteration_def read_fails_def Let_def elapsed_ms_def MAX_WAIT_TIME_def
        recvfrom_def signed_divide_int_def)

lemma probe_iteration_send_fails:
  "probe_iteration pid send_fails st =
     Some (st\<lparr>send_buffer := prepare_packet (sequence st) (send_buffer st),
              printed := printed st @ [send_failed_line]\<rparr>)"
  by (simp add: probe_iteration_def send_fails_def Let_def)

lemma iterations_send_fails:
  "0 < send_count st \<Longrightarrow>
   \<exists>st'. iterations pid (replicate n send_fails) st = Some st' \<and>
         length (printed st') = length (printed st) + n"
proof (induction n arbitrary: st)
  case 0
  then show ?case by simp
next
  case (Suc n)
  let ?st1 = "st\<lparr>send_buffer := prepare_packet (sequence st) (send_buffer st),
                  printed := printed st @ [send_failed_line]\<rparr>"
  have "0 < send_count ?st1"
    using Suc.prems by simp
  from Suc.IH [OF this] show ?case
    using Suc.prems by (auto simp: probe_iteration_send_fails)
qed

subsection \<open>The wait loop, step by step\<close>

lemma validate_reply_buffer: "snd (validate_reply buf off n) = buf"
  by (simp add: validate_reply_def Let_def store16_store16 icmp_checksum_def store16_load16)

lemma validate_reply_verdict:
  "fst (validate_reply buf off n) \<longleftrightarrow>
     icmp_checksum buf off = calculate_checksum (drop off (store16 buf (off + 2) 0)) (n - int off)"
  by (simp add: validate_reply_def Let_def)

lemma wait_loop_datagram:
  assumes "elapsed_ms start (now_ns ev) < MAX_WAIT_TIME" and "recv ev = Some d"
    and "recvfrom rb (recv ev) = (buf, n)"
  shows "wait_loop pid seq start rb (ev # evs) =
     (if is_candidate pid seq buf \<and> fst (validate_reply buf (ip_ihl buf * 4) n)
      then Some (Matched (reply_line (icmp_sequence buf (ip_ihl buf * 4)) (ip_ttl buf)
                   (end_ns ev - start)), buf)
      else wait_loop pid seq start buf evs)"
proof -
  have n: "n \<noteq> -1"
    using assms(2,3) by (auto simp: recvfrom_def Let_def)
  obtain valid buf' where v: "validate_reply buf (ip_ihl buf * 4) n = (valid, buf')"
    by fastforce
  then have "buf' = buf"
    using validate_reply_buffer [of buf "ip_ihl buf * 4" n] by simp
  with v n show ?thesis
    using assms(1,3) by (simp add: Let_def)
qed

lemma wait_loop_step:
  "wait_loop pid seq start rb (ev # evs) =
     (if MAX_WAIT_TIME \<le> elapsed_ms start (now_ns ev) then Some (TimedOut, rb)
      else case recv ev of
        None \<Rightarrow> Some (TimedOut, rb)
      | Some d \<Rightarrow>
          let buf = fst (recvfrom rb (Some d)); n = snd (recvfrom rb (Some d))
          in if is_candidate pid seq buf \<and> fst (validate_reply buf (ip_ihl buf * 4) n)
             then Some (Matched (reply_line (icmp_sequence buf (ip_ihl buf * 4)) (ip_ttl buf)
                          (end_ns ev - start)), buf)
             else wait_loop pid seq start buf evs)"
proof (cases "MAX_WAIT_TIME \<le> elapsed_ms start (now_ns ev)")
  case True
  then show ?thesis by simp
next
  case False
  then have budget: "elapsed_ms start (now_ns ev) < MAX_WAIT_TIME" by simp
  show ?thesis
  proof (cases "recv ev")
    case None
    then show ?thesis using budget by (simp add: recvfrom_def)
  next
    case (Some d)
    have "recvfrom rb (recv ev) = (fst (recvfrom rb (Some d)), snd (recvfrom rb (Some d)))"
      using Some by simp
    from wait_loop_datagram [OF budget Some this, of pid seq evs] show ?thesis
      using False Some by (simp add: Let_def)
  qed
qed

lemma wait_loop_matched:
  "wait_loop pid seq start rb evs = Some (Matched l, b) \<Longrightarrow>
   \<exists>ev \<in> set evs. elapsed_ms start (now_ns ev) < MAX_WAIT_TIME \<and> recv ev \<noteq> None \<and>
      is_candidate pid seq b \<and>
      l = reply_line (icmp_sequence b (ip_ihl b * 4)) (ip_ttl b) (end_ns ev - start)"
proof (induction evs arbitrary: rb)
  case Nil
  then show ?case by simp
next
  case (Cons ev evs)
  from Cons.prems show ?case
    unfolding wait_loop_step
    by (auto simp: Let_def split: if_splits option.splits dest: Cons.IH)
qed


text \<open>
  The equations that evaluate the receive path on the sample data.
\<close>

lemmas sample_eval =
  elapsed_ms_def MAX_WAIT_TIME_def recvfrom_def signed_divide_int_def
  example_reply_def corrupted_reply_def foreign_reply_def example_ip_header_def
  BUFFER_SIZE_def Let_def is_candidate_def ip_ihl_def icmp_type_def icmp_id_def
  icmp_sequence_def load16_def ICMP_ECHOREPLY_def masked_pid_def validate_reply_def
  icmp_checksum_def store16_def calculate_checksum_def sum_words.simps ip_ttl_def nth_append

lemma ip_ihl_bound: "ip_ihl m < 16"
proof -
  have "m ! 0 AND 0x0F = take_bit 4 (m ! 0)"
    by (simp add: take_bit_eq_mask mask_eq_exp_minus_1)
  then have "ip_ihl m = take_bit 4 (unat (m ! 0))"
    by (simp add: ip_ihl_def unsigned_take_bit_eq)
  also have "\<dots> < 2 ^ 4"
    by (rule take_bit_nat_less_exp)
  finally show ?thesis by simp
qed



lemma recvfrom_nth:
  assumes "recvfrom rb (Some d) = (buf, n)" and "i < length d" and "i < BUFFER_SIZE"
  shows "buf ! i = d ! i"
  using assms by (auto simp: recvfrom_def Let_def nth_append)

lemma load16_cong:
  "m ! i = m' ! i \<Longrightarrow> m ! (i + 1) = m' ! (i + 1) \<Longrightarrow> load16 m i = load16 m' i"
  by (simp add: load16_def)

lemma recvfrom_header_fields:
  assumes r: "recvfrom rb (Some d) = (buf, n)"
    and whole: "ip_ihl d * 4 + sizeof_icmphdr \<le> length d"
  shows "ip_ihl buf = ip_ihl d"
    and "icmp_type buf (ip_ihl buf * 4) = icmp_type d (ip_ihl d * 4)"
    and "icmp_id buf (ip_ihl buf * 4) = icmp_id d (ip_ihl d * 4)"
    and "icmp_sequence buf (ip_ihl buf * 4) = icmp_sequence d (ip_ihl d * 4)"
proof -
  have same: "buf ! i = d ! i" if "i < ip_ihl d * 4 + 8" for i
  proof (rule recvfrom_nth [OF r])
    show "i < length d"
      using that whole by (simp add: sizeof_icmphdr_def)
    show "i < BUFFER_SIZE"
      using that ip_ihl_bound [of d] by (simp add: BUFFER_SIZE_def)
  qed
  show ihl: "ip_ihl buf = ip_ihl d"
    using same [of 0] by (simp add: ip_ihl_def)
  show "icmp_type buf (ip_ihl buf * 4) = icmp_type d (ip_ihl d * 4)"
    using same [of "ip_ihl d * 4"] by (simp add: ihl icmp_type_def)
  show "icmp_id buf (ip_ihl buf * 4) = icmp_id d (ip_ihl d * 4)"
    unfolding ihl icmp_id_def by (rule load16_cong; rule same) simp_all
  show "icmp_sequence buf (ip_ihl buf * 4) = icmp_sequence d (ip_ihl d * 4)"
    unfolding ihl icmp_sequence_def by (rule load16_cong; rule same) simp_all
qed


lemma probe_iteration_matched:
  assumes "0 < sendto_ret env"
    and "wait_loop pid (sequence st) (start_ns env) (recv_buffer st) (reads env) =
           Some (Matched l, b)"
  shows "\<exists>st'. probe_iteration pid env st = Some st' \<and> printed st' = printed st @ [l]"
  using assms by (simp add: probe_iteration_def Let_def)

subsection \<open>The ones'-complement sum\<close>

text \<open>
  The described algorithm against the arithmetic it stands for. While the 32-bit
  accumulator cannot overflow (fewer than \<open>2 ^ 17\<close> bytes), the complement of the
  checksum is congruent modulo \<open>2 ^ 16 - 1\<close> to the sum of the words: it is their
  ones'-complement sum.
\<close>

lemma length_words16: "length (words16 bs) = length bs div 2"
  by (induction bs rule: words16.induct) simp_all

lemma sum_words16_bound: "sum_list (map unat (ws :: u16 list)) \<le> 65535 * length ws"
proof (induction ws)
  case Nil
  show ?case by simp
next
  case (Cons w ws)
  have "unat w < 2 ^ 16"
    using unsigned_less [of w] by simp
  with Cons show ?case by simp
qed

lemma unat_ucast_16_32: "unat (ucast (w :: u16) :: u32) = unat w"
proof -
  have "unat w < 2 ^ 16"
    using unsigned_less [of w] by simp
  then have "take_bit 32 (unat w) = unat w"
    by (simp add: take_bit_nat_eq_self)
  then show ?thesis
    by (simp add: unsigned_ucast_eq)
qed

lemma unat_sum_list_ucast:
  "sum_list (map unat (ws :: u16 list)) < 2 ^ 32 \<Longrightarrow>
   unat (sum_list (map ucast ws) :: u32) = sum_list (map unat ws)"
proof (induction ws)
  case Nil
  show ?case by simp
next
  case (Cons w ws)
  then have rest: "unat (sum_list (map ucast ws) :: u32) = sum_list (map unat ws)"
    by simp
  have "unat (ucast w :: u32) + unat (sum_list (map ucast ws) :: u32) < 2 ^ LENGTH(32)"
    using Cons.prems by (simp add: rest unat_ucast_16_32)
  then have "unat (ucast w + sum_list (map ucast ws) :: u32) =
      unat (ucast w :: u32) + unat (sum_list (map ucast ws) :: u32)"
    by (simp only: unat_add_lem)
  then show ?case
    by (simp add: rest unat_ucast_16_32)
qed

lemma fold_carries:
  fixes S :: nat
  assumes "S < 2 ^ 32"
  shows "((S mod 65536 + S div 65536) + (S mod 65536 + S div 65536) div 65536) mod 65536 mod 65535
         = S mod 65535"
proof -
  define q r where "q = S div 65536" and "r = S mod 65536"
  define F where "F = r + q"
  have q: "q < 65536"
    using assms unfolding q_def by (simp add: less_mult_imp_div_less)
  have r: "r < 65536"
    by (simp add: r_def)
  have "S = 65536 * q + r"
    unfolding q_def r_def by (rule mult_div_mod_eq [symmetric])
  then have "S = 65535 * q + F"
    unfolding F_def by linarith
  then have "S mod 65535 = F mod 65535"
    by (simp only: mod_mult_self4)
  moreover have "(F + F div 65536) mod 65536 mod 65535 = F mod 65535"
  proof (cases "F < 65536")
    case True
    then have "F div 65536 = 0"
      by (rule div_less)
    with True show ?thesis
      by (simp only: add_0_right mod_less)
  next
    case False
    define G where "G = F - 65536"
    have G: "F = 65536 + G" and small: "G < 65535"
      using False q r unfolding G_def F_def by linarith+
    have one: "F div 65536 = 1"
      using G small by (intro div_nat_eqI) simp_all
    have "F + 1 = 65536 + (G + 1)"
      using G by linarith
    then have "(F + 1) mod 65536 = (G + 1) mod 65536"
      by (simp only: mod_add_self1)
    also have "\<dots> = G + 1"
      using small by (intro mod_less) linarith
    finally have lhs: "(F + F div 65536) mod 65536 = G + 1"
      by (simp only: one)
    have "F = 65535 + (G + 1)"
      using G by linarith
    then have "F mod 65535 = (G + 1) mod 65535"
      by (simp only: mod_add_self1)
    with lhs show ?thesis by (simp only:)
  qed
  ultimately show ?thesis
    by (simp only: F_def q_def r_def)
qed

lemma unat_take_bit_16: "unat (take_bit 16 (a :: u32)) = unat a mod 65536"
proof -
  have "unat (take_bit 16 a) = take_bit 16 (unat a)"
    by (rule unsigned_take_bit_eq)
  then show ?thesis
    by (simp add: take_bit_eq_mod)
qed

lemma unat_drop_bit_16: "unat (drop_bit 16 (a :: u32)) = unat a div 65536"
proof -
  have "unat (drop_bit 16 a) = drop_bit 16 (unat a)"
    by (rule unat_drop_bit_eq)
  then show ?thesis
    by (simp add: drop_bit_eq_div)
qed

lemma unat_fold16:
  "unat (take_bit 16 a + drop_bit 16 (a :: u32)) = unat a mod 65536 + unat a div 65536"
proof -
  have "unat a < 2 ^ 32"
    using unsigned_less [of a] by simp
  then have "unat a div 65536 < 65536"
    by (simp add: less_mult_imp_div_less)
  moreover have "unat a mod 65536 < 65536"
    by simp
  ultimately have "unat (take_bit 16 a) + unat (drop_bit 16 a) < 2 ^ LENGTH(32)"
    by (simp add: unat_take_bit_16 unat_drop_bit_16)
  then have "unat (take_bit 16 a + drop_bit 16 a) = unat (take_bit 16 a) + unat (drop_bit 16 a)"
    by (simp only: unat_add_lem)
  then show ?thesis
    by (simp only: unat_take_bit_16 unat_drop_bit_16)
qed

lemma unat_carry16:
  assumes "unat (f :: u32) < 2 ^ 17"
  shows "unat (f + drop_bit 16 f) = unat f + unat f div 65536"
proof -
  have "unat f div 65536 < 2"
    using assms by (simp add: less_mult_imp_div_less)
  then have "unat f + unat (drop_bit 16 f) < 2 ^ LENGTH(32)"
    using assms by (simp add: unat_drop_bit_16)
  then have "unat (f + drop_bit 16 f) = unat f + unat (drop_bit 16 f)"
    by (simp only: unat_add_lem)
  then show ?thesis
    by (simp only: unat_drop_bit_16)
qed

lemma unat_ucast_32_16: "unat (ucast (x :: u32) :: u16) = unat x mod 65536"
proof -
  have "unat (ucast x :: u16) = take_bit LENGTH(16) (unat x)"
    by (rule unsigned_ucast_eq)
  then show ?thesis
    by (simp add: take_bit_eq_mod)
qed

lemma unat_trailing_byte: "unat (odd_trailing_byte bs) \<le> 255"
proof (cases "odd (length bs)")
  case True
  have small: "unat (last bs) < 2 ^ 8"
    using unsigned_less [of "last bs"] by simp
  then have "take_bit 16 (unat (last bs)) = unat (last bs)"
    by (simp add: take_bit_nat_eq_self)
  then have "unat (ucast (last bs) :: u16) = unat (last bs)"
    by (simp add: unsigned_ucast_eq)
  with True small show ?thesis
    by (simp add: odd_trailing_byte_def)
next
  case False
  then show ?thesis by (simp add: odd_trailing_byte_def)
qed

lemma rfc1071_ones_complement:
  assumes short: "length bs < 2 ^ 17"
  shows "unat (NOT (rfc1071_checksum bs)) mod 65535 =
         (sum_list (map unat (words16 bs)) + unat (odd_trailing_byte bs)) mod 65535"
proof -
  define S where "S = sum_list (map unat (words16 bs)) + unat (odd_trailing_byte bs)"
  define acc :: u32 where
    "acc = sum_list (map ucast (words16 bs)) + ucast (odd_trailing_byte bs)"
  define folded where "folded = take_bit 16 acc + drop_bit 16 acc"
  have "length (words16 bs) \<le> 65535"
    using short by (simp add: length_words16)
  then have words: "sum_list (map unat (words16 bs)) \<le> 65535 * 65535"
    using sum_words16_bound [of "words16 bs"] by simp
  with unat_trailing_byte [of bs] have S: "S < 2 ^ 32"
    by (simp add: S_def)
  have w: "unat (sum_list (map ucast (words16 bs)) :: u32) = sum_list (map unat (words16 bs))"
    using words by (intro unat_sum_list_ucast) simp
  have "unat (sum_list (map ucast (words16 bs)) :: u32) + unat (ucast (odd_trailing_byte bs) :: u32)
      < 2 ^ LENGTH(32)"
    using S by (simp add: w unat_ucast_16_32 S_def)
  then have "unat acc = unat (sum_list (map ucast (words16 bs)) :: u32) +
      unat (ucast (odd_trailing_byte bs) :: u32)"
    unfolding acc_def by (simp only: unat_add_lem)
  then have acc: "unat acc = S"
    by (simp add: w unat_ucast_16_32 S_def)
  have folded: "unat folded = S mod 65536 + S div 65536"
    unfolding folded_def by (simp only: unat_fold16 acc)
  have "S div 65536 < 65536"
    using S by (simp add: less_mult_imp_div_less)
  moreover have "S mod 65536 < 65536"
    by simp
  ultimately have "unat folded < 2 ^ 17"
    unfolding folded by simp
  then have "unat (folded + drop_bit 16 folded) = unat folded + unat folded div 65536"
    by (rule unat_carry16)
  then have "unat (ucast (folded + drop_bit 16 folded) :: u16) mod 65535 = S mod 65535"
    using fold_carries [OF S] by (simp only: unat_ucast_32_16 folded)
  then show ?thesis
    by (simp add: rfc1071_checksum_def Let_def acc_def folded_def S_def)
qed

section \<open>The claims\<close>

text \<open>
  C1. Applied to a byte buffer of any length, \<open>calculate_checksum\<close> returns what the
  described algorithm returns: the 16-bit words of the buffer summed in a 32-bit
  accumulator, an odd trailing byte added as a zero-padded word, the high half folded
  into the low half twice, and the 16-bit result complemented. The function is total:
  there is no error result. For a buffer of fewer than \<open>2 ^ 17\<close> bytes the complement
  of the result is the ones'-complement sum of the words, as RFC 1071 defines the
  checksum.
\<close>

theorem calculate_checksum_is_rfc1071:
  "calculate_checksum bs (int (length bs)) = rfc1071_checksum bs \<and>
   (length bs < 2 ^ 17 \<longrightarrow>
      unat (NOT (calculate_checksum bs (int (length bs)))) mod 65535 =
      (sum_list (map unat (words16 bs)) + unat (odd_trailing_byte bs)) mod 65535)"
  using calculate_checksum_append [of bs "[]"] rfc1071_ones_complement [of bs] by simp

theorem calculate_checksum_is_rfc1071_witness:
  "length example_echo_header < 2 ^ 17 \<and>
   rfc1071_checksum example_echo_header = 0xFB2D \<and>
   calculate_checksum example_echo_header 8 = 0xFB2D \<and>
   unat (NOT (calculate_checksum example_echo_header 8)) mod 65535 = (0 + 0 + 0x04D2 + 0) mod 65535"
proof -
  have len: "length example_echo_header = 8"
    by (simp add: example_echo_header_def)
  have spec: "rfc1071_checksum example_echo_header = 0xFB2D"
    by (simp add: rfc1071_checksum_def example_echo_header_def odd_trailing_byte_def load16_def)
  have words: "sum_list (map unat (words16 example_echo_header)) +
      unat (odd_trailing_byte example_echo_header) = 0 + 0 + 0x04D2 + 0"
    by (simp add: example_echo_header_def odd_trailing_byte_def load16_def)
  from calculate_checksum_is_rfc1071 [of example_echo_header] spec
  show ?thesis
    unfolding words by (simp add: len)
qed

text \<open>
  C2. Take an ICMP message \<open>B\<close> whose checksum field is zero, write
  \<open>calculate_checksum\<close> of \<open>B\<close> into the field, and let the message arrive behind an
  IP header \<open>hdr\<close> in a receive buffer (with any bytes \<open>rest\<close> after it). The
  receiver's validation, which saves the field, zeroes it, recomputes the checksum
  over the message and compares, answers true.
\<close>

theorem checksum_roundtrip_validates:
  assumes len: "4 \<le> length B" and zero: "icmp_checksum B 0 = 0"
  shows "fst (validate_reply (hdr @ store16 B 2 (calculate_checksum B (int (length B))) @ rest)
            (length hdr) (int (length hdr) + int (length B)))"
proof -
  let ?c = "calculate_checksum B (int (length B))"
  let ?buf = "hdr @ store16 B 2 ?c @ rest"
  have in_range: "2 + 1 < length (store16 B 2 ?c)"
    using len by (simp add: length_store16)
  have "icmp_checksum ?buf (length hdr) = load16 (store16 B 2 ?c @ rest) 2"
    unfolding icmp_checksum_def by (rule load16_append_right)
  also have "\<dots> = load16 (store16 B 2 ?c) 2"
    using in_range by (rule load16_append_left)
  also have "\<dots> = ?c"
    using len by (intro load16_store16) simp
  finally have saved: "icmp_checksum ?buf (length hdr) = ?c" .
  have "store16 ?buf (length hdr + 2) 0 = hdr @ store16 (store16 B 2 ?c @ rest) 2 0"
    by (rule store16_append_right)
  also have "\<dots> = hdr @ store16 (store16 B 2 ?c) 2 0 @ rest"
    using in_range by (simp only: store16_append_left)
  also have "\<dots> = hdr @ store16 B 2 0 @ rest"
    by (simp only: store16_store16)
  also have "\<dots> = hdr @ B @ rest"
  proof -
    have "load16 B 2 = 0"
      using zero unfolding icmp_checksum_def by (simp only: add_0)
    then have "store16 B 2 0 = B"
      by (rule store16_zero_id)
    then show ?thesis by simp
  qed
  finally have zeroed: "store16 ?buf (length hdr + 2) 0 = hdr @ B @ rest" .
  have recomputed: "calculate_checksum (B @ rest) (int (length B)) = ?c"
    by (simp only: calculate_checksum_append calculate_checksum_append [of B "[]", simplified])
  have dropped: "drop (length hdr) (hdr @ B @ rest) = B @ rest"
    by simp
  have remaining: "int (length hdr) + int (length B) - int (length hdr) = int (length B)"
    by simp
  show ?thesis
    unfolding validate_reply_def Let_def
    by (simp only: saved zeroed dropped remaining recomputed fst_conv)
qed

theorem checksum_roundtrip_validates_witness:
  "4 \<le> length example_echo_header \<and> icmp_checksum example_echo_header 0 = 0 \<and>
   fst (validate_reply
     (example_ip_header @ store16 example_echo_header 2 (calculate_checksum example_echo_header 8))
     20 28)"
proof -
  have a: "4 \<le> length example_echo_header"
    by (simp add: example_echo_header_def)
  have b: "icmp_checksum example_echo_header 0 = 0"
    by (simp add: example_echo_header_def icmp_checksum_def load16_def)
  have "length example_echo_header = 8" "length example_ip_header = 20"
    by (simp_all add: example_echo_header_def example_ip_header_def)
  with checksum_roundtrip_validates [OF a b, of example_ip_header "[]"] a b
  show ?thesis by simp
qed

text \<open>
  C3. A datagram read during a wait is examined through the header fields found in
  the receive buffer behind the IP header. Unless the type is \<open>ICMP_ECHOREPLY\<close>, the
  identifier is \<open>getpid() & 0xFFFF\<close> and the sequence is the outstanding one, the
  datagram is passed over: the wait goes on exactly as it does from the next event.
  When all three hold, and only then, the datagram is a candidate: the validation of
  its checksum decides between a match and going on. For a datagram that holds a whole
  ICMP header the fields examined are the datagram's own.
\<close>

theorem candidate_iff_type_id_sequence:
  assumes budget: "elapsed_ms start (now_ns ev) < MAX_WAIT_TIME" and got: "recv ev = Some d"
    and buf: "recvfrom rb (recv ev) = (buf, n)"
  shows
    "(\<not> (icmp_type buf (ip_ihl buf * 4) = ICMP_ECHOREPLY \<and>
         uint (icmp_id buf (ip_ihl buf * 4)) = masked_pid pid \<and>
         uint (icmp_sequence buf (ip_ihl buf * 4)) = seq) \<longrightarrow>
       wait_loop pid seq start rb (ev # evs) = wait_loop pid seq start buf evs) \<and>
     (icmp_type buf (ip_ihl buf * 4) = ICMP_ECHOREPLY \<and>
      uint (icmp_id buf (ip_ihl buf * 4)) = masked_pid pid \<and>
      uint (icmp_sequence buf (ip_ihl buf * 4)) = seq \<longrightarrow>
       wait_loop pid seq start rb (ev # evs) =
         (if fst (validate_reply buf (ip_ihl buf * 4) n)
          then Some (Matched (reply_line (icmp_sequence buf (ip_ihl buf * 4)) (ip_ttl buf)
                       (end_ns ev - start)), buf)
          else wait_loop pid seq start buf evs)) \<and>
     (ip_ihl d * 4 + sizeof_icmphdr \<le> length d \<longrightarrow>
       icmp_type buf (ip_ihl buf * 4) = icmp_type d (ip_ihl d * 4) \<and>
       icmp_id buf (ip_ihl buf * 4) = icmp_id d (ip_ihl d * 4) \<and>
       icmp_sequence buf (ip_ihl buf * 4) = icmp_sequence d (ip_ihl d * 4))"
proof -
  have fields: "is_candidate pid seq buf \<longleftrightarrow>
      icmp_type buf (ip_ihl buf * 4) = ICMP_ECHOREPLY \<and>
      uint (icmp_id buf (ip_ihl buf * 4)) = masked_pid pid \<and>
      uint (icmp_sequence buf (ip_ihl buf * 4)) = seq"
    by (simp add: is_candidate_def Let_def)
  have r: "recvfrom rb (Some d) = (buf, n)"
    using buf got by simp
  show ?thesis
    using wait_loop_datagram [OF budget got buf, of pid seq evs] fields
      recvfrom_header_fields(2-4) [OF r]
    by simp
qed

theorem candidate_iff_type_id_sequence_witness:
  "elapsed_ms 0 20000 < MAX_WAIT_TIME \<and>
   uint (icmp_id foreign_reply (ip_ihl foreign_reply * 4)) \<noteq> masked_pid 1234 \<and>
   wait_loop 1234 0 0 example_recv_buffer
     [\<lparr>now_ns = 20000, recv = Some foreign_reply, end_ns = 600000000\<rparr>,
      \<lparr>now_ns = 600010000, recv = Some example_reply, end_ns = 1500000000\<rparr>] =
   wait_loop 1234 0 0 (fst (recvfrom example_recv_buffer (Some foreign_reply)))
     [\<lparr>now_ns = 600010000, recv = Some example_reply, end_ns = 1500000000\<rparr>]"
proof -
  let ?ev = "\<lparr>now_ns = 20000, recv = Some foreign_reply, end_ns = 600000000\<rparr>"
  let ?r = "recvfrom example_recv_buffer (Some foreign_reply)"
  have budget: "elapsed_ms 0 (now_ns ?ev) < MAX_WAIT_TIME"
    by (simp add: sample_eval)
  have got: "recv ?ev = Some foreign_reply"
    by simp
  have buf: "recvfrom example_recv_buffer (recv ?ev) = (fst ?r, snd ?r)"
    by simp
  have whole: "ip_ihl foreign_reply * 4 + sizeof_icmphdr \<le> length foreign_reply"
    by (simp add: sample_eval sizeof_icmphdr_def)
  have other: "uint (icmp_id foreign_reply (ip_ihl foreign_reply * 4)) \<noteq> masked_pid 1234"
    by (simp add: sample_eval)
  from candidate_iff_type_id_sequence [OF budget got buf, of 1234 0] whole other budget
  show ?thesis by simp
qed

text \<open>
  C4. The claim is that the probe loop ends after ten iterations. In the code the
  loop body never writes \<open>send_count\<close>: whatever the environment does, the exit of
  \<open>main_loop\<close> is not reached, and after any number of completed iterations
  \<open>send_count\<close> is still 10. The witness runs eleven iterations.
\<close>

theorem probe_loop_never_exits:
  "main_loop pid envs (initial_state pid sb rb) = None \<and>
   (\<forall>st. iterations pid envs (initial_state pid sb rb) = Some st \<longrightarrow> send_count st = 10)"
  using main_loop_stuck [of "initial_state pid sb rb" pid envs]
    iterations_counters [of pid envs "initial_state pid sb rb"]
  by (simp add: initial_state_def)

theorem probe_loop_never_exits_witness:
  "\<exists>st. iterations 1234 (replicate 11 send_fails)
          (initial_state 1234 example_send_buffer example_recv_buffer) = Some st \<and>
        length (printed st) = 11 \<and> send_count st = 10 \<and>
        main_loop 1234 (replicate 11 send_fails)
          (initial_state 1234 example_send_buffer example_recv_buffer) = None"
proof -
  let ?init = "initial_state 1234 example_send_buffer example_recv_buffer"
  have "0 < send_count ?init"
    by (simp add: initial_state_def)
  from iterations_send_fails [OF this, of 1234 11] obtain st where
    st: "iterations 1234 (replicate 11 send_fails) ?init = Some st"
    and n: "length (printed st) = length (printed ?init) + 11"
    by blast
  from n have "length (printed st) = 11"
    by (simp add: initial_state_def)
  with st probe_loop_never_exits [of 1234 "replicate 11 send_fails" example_send_buffer
      example_recv_buffer]
  show ?thesis by blast
qed

text \<open>
  C5. The claim is that each probe carries the previous sequence number plus one.
  In the code the loop body never writes \<open>sequence\<close>: after any number of iterations
  it is 0, and every packet handed to \<open>sendto\<close> carries sequence 0. (The first
  probe does carry 0, as claimed.)
\<close>

theorem sequence_never_advances:
  assumes len: "length sb = PACKET_SIZE + sizeof_icmphdr"
    and reach: "iterations pid envs (initial_state pid sb rb) = Some st"
  shows "sequence st = 0 \<and> (\<forall>p \<in> set (transmitted st). icmp_sequence p 0 = 0)"
proof -
  let ?P = "\<lambda>s. sequence s = 0 \<and> length (send_buffer s) = 64 \<and>
                 (\<forall>p \<in> set (transmitted s). icmp_sequence p 0 = 0)"
  have "?P st"
  proof (rule iterations_preserve [OF reach])
    show "?P (initial_state pid sb rb)"
      using len
      by (simp add: initial_state_def length_init_packet PACKET_SIZE_def sizeof_icmphdr_def)
  next
    fix env a b
    assume a: "?P a" and step: "probe_iteration pid env a = Some b"
    have buf: "send_buffer b = prepare_packet 0 (send_buffer a)"
      using probe_iteration_effect(3) [OF step] a by simp
    then have "icmp_sequence (send_buffer b) 0 = 0"
      using prepare_packet_sequence [of "send_buffer a" 0] a by simp
    then show "?P b"
      using probe_iteration_effect(2,4) [OF step] a buf
      by (auto simp: length_prepare_packet)
  qed
  then show ?thesis by simp
qed

theorem sequence_never_advances_witness:
  "\<exists>st. iterations 1234 [read_fails, read_fails]
          (initial_state 1234 example_send_buffer example_recv_buffer) = Some st \<and>
        length (transmitted st) = 2 \<and>
        list_all (\<lambda>p. icmp_sequence p 0 = 0) (transmitted st) \<and> sequence st = 0"
proof -
  let ?init = "initial_state 1234 example_send_buffer example_recv_buffer"
  have len: "length example_send_buffer = PACKET_SIZE + sizeof_icmphdr"
    by (simp add: example_send_buffer_def PACKET_SIZE_def sizeof_icmphdr_def)
  obtain st where st: "iterations 1234 [read_fails, read_fails] ?init = Some st"
    and two: "length (transmitted st) = 2"
    by (simp add: probe_iteration_read_fails initial_state_def)
  from sequence_never_advances [OF len st] two st
  show ?thesis by (auto simp: list_all_iff)
qed




text \<open>
  C7. A datagram whose type, identifier and sequence match but whose stored checksum
  differs from the recomputed one is not accepted: the wait goes on as it does from
  the next event, with the same start time. With nothing after it the loop is still
  waiting; if the next budget test finds the budget used up, the outcome is a timeout.
\<close>

theorem corrupted_reply_rejected:
  assumes budget: "elapsed_ms start (now_ns ev) < MAX_WAIT_TIME" and got: "recv ev = Some d"
    and buf: "recvfrom rb (recv ev) = (buf, n)"
    and candidate: "is_candidate pid seq buf"
    and mismatch: "icmp_checksum buf (ip_ihl buf * 4) \<noteq>
      calculate_checksum (drop (ip_ihl buf * 4) (store16 buf (ip_ihl buf * 4 + 2) 0))
        (n - int (ip_ihl buf * 4))"
  shows "wait_loop pid seq start rb (ev # evs) = wait_loop pid seq start buf evs \<and>
         wait_loop pid seq start rb [ev] = None \<and>
         (\<forall>ev' evs'. evs = ev' # evs' \<and> MAX_WAIT_TIME \<le> elapsed_ms start (now_ns ev') \<longrightarrow>
            wait_loop pid seq start rb (ev # evs) = Some (TimedOut, buf))"
proof -
  have "\<not> fst (validate_reply buf (ip_ihl buf * 4) n)"
    using mismatch by (simp add: validate_reply_verdict)
  then have "wait_loop pid seq start rb (ev # es) = wait_loop pid seq start buf es" for es
    using wait_loop_datagram [OF budget got buf, of pid seq es] by simp
  then show ?thesis by simp
qed

theorem corrupted_reply_rejected_witness:
  "elapsed_ms 0 20000 < MAX_WAIT_TIME \<and>
   is_candidate 1234 0 (fst (recvfrom example_recv_buffer (Some corrupted_reply))) \<and>
   wait_loop 1234 0 0 example_recv_buffer
     [\<lparr>now_ns = 20000, recv = Some corrupted_reply, end_ns = 600000000\<rparr>,
      \<lparr>now_ns = 1000010000, recv = Some example_reply, end_ns = 1500000000\<rparr>] =
   Some (TimedOut, fst (recvfrom example_recv_buffer (Some corrupted_reply)))"
proof -
  let ?ev = "\<lparr>now_ns = 20000, recv = Some corrupted_reply, end_ns = 600000000\<rparr>"
  let ?ev' = "\<lparr>now_ns = 1000010000, recv = Some example_reply, end_ns = 1500000000\<rparr>"
  let ?r = "recvfrom example_recv_buffer (Some corrupted_reply)"
  have budget: "elapsed_ms 0 (now_ns ?ev) < MAX_WAIT_TIME"
    by (simp add: sample_eval)
  have got: "recv ?ev = Some corrupted_reply"
    by simp
  have buf: "recvfrom example_recv_buffer (recv ?ev) = (fst ?r, snd ?r)"
    by simp
  have candidate: "is_candidate 1234 0 (fst ?r)"
    by (simp add: sample_eval)
  have mismatch: "icmp_checksum (fst ?r) (ip_ihl (fst ?r) * 4) \<noteq>
      calculate_checksum (drop (ip_ihl (fst ?r) * 4) (store16 (fst ?r) (ip_ihl (fst ?r) * 4 + 2) 0))
        (snd ?r - int (ip_ihl (fst ?r) * 4))"
    by (simp add: sample_eval)
  have late: "MAX_WAIT_TIME \<le> elapsed_ms 0 (now_ns ?ev')"
    by (simp add: sample_eval)
  from corrupted_reply_rejected [OF budget got buf candidate mismatch, where evs = "[?ev']"]
    late budget candidate
  show ?thesis by simp
qed




text \<open>
  C9. The claim is that the line of a successful probe holds the size and the source
  address of the reply. In the code the line starts with the fixed text
  \<open>64 bytes from\<close> and the configured target address; neither is taken from the
  reply. What does hold: every completed iteration writes exactly one line: the
  send-failure message if \<open>sendto\<close> failed, else the reply line (see \<open>reply_line\<close>;
  the sequence number is the outstanding one, the TTL is the one in the received IP
  header, the time is the latency with two-decimal fixed formatting) if the wait
  matched, else the timeout message.
\<close>

theorem one_line_per_probe:
  assumes "probe_iteration pid env st = Some st'"
  shows "printed st' = printed st @
           [if sendto_ret env \<le> 0 then send_failed_line
            else case wait_loop pid (sequence st) (start_ns env) (recv_buffer st) (reads env) of
                   Some (Matched l, b) \<Rightarrow> l
                 | _ \<Rightarrow> timeout_line] \<and>
         (\<forall>l b. 0 < sendto_ret env \<and>
            wait_loop pid (sequence st) (start_ns env) (recv_buffer st) (reads env) =
              Some (Matched l, b) \<longrightarrow>
            (\<exists>ev \<in> set (reads env).
               l = reply_line (word_of_int (sequence st)) (ip_ttl b) (end_ns ev - start_ns env)))"
proof -
  have line: "\<exists>ev \<in> set evs. l = reply_line (word_of_int seq) (ip_ttl b) (end_ns ev - start)"
    if "wait_loop pid seq start rb evs = Some (Matched l, b)" for seq start rb evs l b
  proof -
    from wait_loop_matched [OF that] obtain ev where
      ev: "ev \<in> set evs" and c: "is_candidate pid seq b"
      and l: "l = reply_line (icmp_sequence b (ip_ihl b * 4)) (ip_ttl b) (end_ns ev - start)"
      by blast
    from c have "uint (icmp_sequence b (ip_ihl b * 4)) = seq"
      by (simp add: is_candidate_def Let_def)
    then have "icmp_sequence b (ip_ihl b * 4) = word_of_int seq"
      by (metis word_of_int_uint)
    with ev l show ?thesis by auto
  qed
  show ?thesis
    using assms line
    by (auto simp: probe_iteration_def Let_def
        split: if_splits option.splits prod.splits wait_outcome.splits)
qed

theorem one_line_per_probe_witness:
  "\<exists>st'. probe_iteration 1234 reply_arrives
       (initial_state 1234 example_send_buffer example_recv_buffer) = Some st' \<and>
     printed st' = [reply_line 0 55 50000000]"
proof -
  let ?init = "initial_state 1234 example_send_buffer example_recv_buffer"
  have run: "map_option fst (wait_loop 1234 (sequence ?init) (start_ns reply_arrives)
      (recv_buffer ?init) (reads reply_arrives)) = Some (Matched (reply_line 0 55 50000000))"
    by (simp add: initial_state_def reply_arrives_def sample_eval)
  then obtain b where w: "wait_loop 1234 (sequence ?init) (start_ns reply_arrives)
      (recv_buffer ?init) (reads reply_arrives) = Some (Matched (reply_line 0 55 50000000), b)"
    by auto
  have "0 < sendto_ret reply_arrives"
    by (simp add: reply_arrives_def)
  from probe_iteration_matched [OF this w]
  obtain st' where st': "probe_iteration 1234 reply_arrives ?init = Some st'"
    by blast
  from one_line_per_probe [OF st'] w have "printed st' = [reply_line 0 55 50000000]"
    by (simp add: initial_state_def reply_arrives_def)
  with st' show ?thesis by blast
qed

text \<open>
  A 28-byte reply from 1.2.3.4 is reported as 64 bytes from 8.8.8.8.
\<close>

theorem reply_line_counterexample:
  "(\<exists>st'. probe_iteration 1234 reply_arrives
       (initial_state 1234 example_send_buffer example_recv_buffer) = Some st' \<and>
     printed st' = [(Stdout,
       [Text ''64 bytes from '', Text ''8.8.8.8'', Text '': icmp_seq='', Number 0,
        Text '' ttl='', Number 55, Text '' time='', Millis2 50000000, Text '' ms''])]) \<and>
   length example_reply = 28 \<and> ip_saddr example_reply = [1, 2, 3, 4]"
proof -
  let ?init = "initial_state 1234 example_send_buffer example_recv_buffer"
  have run: "map_option fst (wait_loop 1234 (sequence ?init) (start_ns reply_arrives)
      (recv_buffer ?init) (reads reply_arrives)) = Some (Matched (reply_line 0 55 50000000))"
    by (simp add: initial_state_def reply_arrives_def sample_eval)
  then obtain b where w: "wait_loop 1234 (sequence ?init) (start_ns reply_arrives)
      (recv_buffer ?init) (reads reply_arrives) = Some (Matched (reply_line 0 55 50000000), b)"
    by auto
  have "0 < sendto_ret reply_arrives"
    by (simp add: reply_arrives_def)
  from probe_iteration_matched [OF this w]
  have "\<exists>st'. probe_iteration 1234 reply_arrives ?init = Some st' \<and>
      printed st' = [reply_line 0 55 50000000]"
    by (simp add: initial_state_def)
  moreover have "length example_reply = 28" "ip_saddr example_reply = [1, 2, 3, 4]"
    by (simp_all add: example_reply_def example_ip_header_def ip_saddr_def)
  ultimately show ?thesis
    by (simp add: reply_line_def GOOGLE_DNS_def)
qed

text \<open>
  C10. In any state reached from the start of the loop, one more iteration leaves
  \<open>send_buffer\<close> as it was outside the checksum and sequence fields, and every
  packet transmitted so far agrees with the packet built before the loop outside those
  fields: type \<open>ICMP_ECHO\<close>, code 0, the identifier \<open>getpid() & 0xFFFF\<close>, and payload
  byte \<open>i mod 256\<close> at every offset \<open>i\<close> from 8 to 63.
\<close>

theorem transmitted_packets_fixed_fields:
  assumes len: "length sb = PACKET_SIZE + sizeof_icmphdr"
    and reach: "iterations pid envs (initial_state pid sb rb) = Some st"
    and step: "probe_iteration pid env st = Some st'"
  shows "same_outside_seq_checksum (send_buffer st') (send_buffer st) \<and>
         (\<forall>p \<in> set (transmitted st').
            same_outside_seq_checksum p (init_packet pid sb) \<and>
            icmp_type p 0 = ICMP_ECHO \<and> icmp_code p 0 = 0 \<and>
            icmp_id p 0 = word_of_int (masked_pid pid) \<and>
            (\<forall>i \<in> {sizeof_icmphdr ..< PACKET_SIZE + sizeof_icmphdr}.
               p ! i = of_nat (i mod 256)))"
proof
  show "same_outside_seq_checksum (send_buffer st') (send_buffer st)"
    using probe_iteration_effect(3) [OF step] prepare_packet_same by simp
next
  let ?ref = "init_packet pid sb"
  have inv: "same_outside_seq_checksum (send_buffer st) ?ref \<and>
             (\<forall>p \<in> set (transmitted st). same_outside_seq_checksum p ?ref)"
    by (rule iterations_invariant [OF reach]) (simp_all add: initial_state_def same_outside_refl)
  have buf: "same_outside_seq_checksum (send_buffer st') ?ref"
    using probe_iteration_effect(3) [OF step] prepare_packet_same inv
    by (auto intro: same_outside_trans)
  have sent: "\<forall>p \<in> set (transmitted st'). same_outside_seq_checksum p ?ref"
    using probe_iteration_effect(4) [OF step] buf inv by auto
  show "\<forall>p \<in> set (transmitted st').
            same_outside_seq_checksum p ?ref \<and>
            icmp_type p 0 = ICMP_ECHO \<and> icmp_code p 0 = 0 \<and>
            icmp_id p 0 = word_of_int (masked_pid pid) \<and>
            (\<forall>i \<in> {sizeof_icmphdr ..< PACKET_SIZE + sizeof_icmphdr}.
               p ! i = of_nat (i mod 256))"
    using sent fixed_fields_of_same [OF _ len] by blast
qed

theorem transmitted_packets_fixed_fields_witness:
  "\<exists>st st'. iterations 1234 [read_fails]
          (initial_state 1234 example_send_buffer example_recv_buffer) = Some st \<and>
        probe_iteration 1234 read_fails st = Some st' \<and>
        length (transmitted st') = 2 \<and>
        same_outside_seq_checksum (send_buffer st') (send_buffer st) \<and>
        list_all (\<lambda>p. icmp_type p 0 = 8 \<and> icmp_code p 0 = 0 \<and> icmp_id p 0 = 1234 \<and>
                    p ! 8 = 8 \<and> p ! 63 = 63) (transmitted st')"
proof -
  let ?init = "initial_state 1234 example_send_buffer example_recv_buffer"
  have len: "length example_send_buffer = PACKET_SIZE + sizeof_icmphdr"
    by (simp add: example_send_buffer_def PACKET_SIZE_def sizeof_icmphdr_def)
  obtain st where st: "iterations 1234 [read_fails] ?init = Some st"
    and one: "length (transmitted st) = 1"
    by (simp add: probe_iteration_read_fails initial_state_def)
  obtain st' where st': "probe_iteration 1234 read_fails st = Some st'"
    and two: "length (transmitted st') = 2"
    using one by (simp add: probe_iteration_read_fails)
  have "(8 :: nat) \<in> {sizeof_icmphdr ..< PACKET_SIZE + sizeof_icmphdr}"
    and "(63 :: nat) \<in> {sizeof_icmphdr ..< PACKET_SIZE + sizeof_icmphdr}"
    by (simp_all add: PACKET_SIZE_def sizeof_icmphdr_def)
  with transmitted_packets_fixed_fields [OF len st st'] st st' two
  show ?thesis
    by (auto simp: list_all_iff ICMP_ECHO_def masked_pid_def)
qed

end
